theory Spec2Isabelle
  imports Main "HOL-Library.Sublist"
begin

section \<open>The frame pipeline of main.py\<close>

text \<open>
  The program threads a Python list of frames through a list of steps. A frame is a
  numpy array, a mutable object; a Python list is an object as well. Both live in a
  store, addressed by reference, so that drawing into a frame in place and handing back
  the list that came in are visible in the model.
\<close>

subsection \<open>Objects, store and output\<close>

type_synonym ref = nat

text \<open>A numpy array: its \<open>shape\<close> tuple and its elements in row-major order.\<close>

record frame =
  shape :: "nat list"
  pixels :: "nat list"

text \<open>
  The exceptions a step can end with: the \<open>assert\<close> of \<open>cut\<close> (assertions enabled,
  the interpreter's default), and whatever a call into OpenCV raises.
\<close>

datatype error = AssertionError | Cv2_error

text \<open>The values that occur as step arguments in a pipeline: strings, integers, tuples of integers.\<close>

datatype arg = PyStr string | PyInt int | PyTuple "int list"

text \<open>One constructor for each \<open>print\<close> of the program, holding the values it formats.\<close>

datatype message =
    Cannot_open string
  | Appended_frames nat string
  | Cannot_open_image string
  | Appended_image string
  | Cut_frames int int int int
  | Applying string "arg list"

text \<open>
  The store: array objects and list objects, each addressed by its position, and the lines
  printed so far. An object is created at the end, so a new reference is one no older
  object has. A list object holds references to arrays.
\<close>

record world =
  arrays :: "frame list"
  list_objs :: "ref list list"
  stdout :: "message list"

definition new_array :: "world \<Rightarrow> frame \<Rightarrow> world \<times> ref" where
  "new_array w a = (w\<lparr>arrays := arrays w @ [a]\<rparr>, length (arrays w))"

definition new_list :: "world \<Rightarrow> ref list \<Rightarrow> world \<times> ref" where
  "new_list w xs = (w\<lparr>list_objs := list_objs w @ [xs]\<rparr>, length (list_objs w))"

definition print :: "world \<Rightarrow> message \<Rightarrow> world" where
  "print w m = w\<lparr>stdout := stdout w @ [m]\<rparr>"

text \<open>The references a list object holds, and the frames they point to.\<close>

definition seq :: "world \<Rightarrow> ref \<Rightarrow> ref list" where
  "seq w l = list_objs w ! l"

definition frames_of :: "world \<Rightarrow> ref \<Rightarrow> frame list" where
  "frames_of w l = map (\<lambda>a. arrays w ! a) (seq w l)"

subsection \<open>Python slices\<close>

text \<open>
  The bound of a slice \<open>xs[i:]\<close> or \<open>xs[:i]\<close> on a list of length \<open>n\<close>: a negative bound
  counts from the end, and the outcome is clipped to \<open>0..n\<close>.
\<close>

definition slice_bound :: "int \<Rightarrow> int \<Rightarrow> nat" where
  "slice_bound n i = (if i < 0 then nat (max 0 (n + i)) else nat (min i n))"

definition slice_to :: "'a list \<Rightarrow> int \<Rightarrow> 'a list" where
  "slice_to xs i = take (slice_bound (int (length xs)) i) xs"

definition slice_from :: "'a list \<Rightarrow> int \<Rightarrow> 'a list" where
  "slice_from xs i = drop (slice_bound (int (length xs)) i) xs"

subsection \<open>The libraries the program calls\<close>

text \<open>
  \<open>os\<close> and \<open>cv2\<close> are not part of the program; their functions are parameters.
  \<open>cv2_VideoCapture path\<close> is \<open>None\<close> when the capture does not open, otherwise the frames
  its \<open>read\<close> delivers before it reports the end. \<open>cv2_imread path\<close> is \<open>None\<close> when the
  image cannot be read. \<open>cv2_putText\<close> gives the new content of the array it draws into.
\<close>

datatype conversion = COLOR_BGR2GRAY | COLOR_GRAY2BGR

datatype font = FONT_HERSHEY_SIMPLEX

record lib =
  os_path_join :: "string \<Rightarrow> string \<Rightarrow> string"
  cv2_VideoCapture :: "string \<Rightarrow> frame list option"
  cv2_imread :: "string \<Rightarrow> frame option"
  cv2_cvtColor :: "frame \<Rightarrow> conversion \<Rightarrow> error + frame"
  cv2_GaussianBlur :: "frame \<Rightarrow> int list \<Rightarrow> int \<Rightarrow> error + frame"
  cv2_putText :: "frame \<Rightarrow> string \<Rightarrow> int list \<Rightarrow> font \<Rightarrow> int \<Rightarrow> int list \<Rightarrow> int \<Rightarrow> error + frame"

subsection \<open>Pipeline filters\<close>

text \<open>
  The loop of \<open>append_video\<close>: every successful \<open>cap.read()\<close> creates an array and appends
  it to \<open>new_frames\<close>; the first unsuccessful one leaves the loop.
\<close>

fun read_frames :: "world \<Rightarrow> frame list \<Rightarrow> ref list \<Rightarrow> world \<times> ref list" where
  "read_frames w [] new_frames = (w, new_frames)"
| "read_frames w (frame # cap) new_frames =
     (case new_array w frame of (w', r) \<Rightarrow> read_frames w' cap (new_frames @ [r]))"

definition append_video :: "lib \<Rightarrow> world \<Rightarrow> ref \<Rightarrow> string \<Rightarrow> error + world \<times> ref" where
  "append_video lb w frames video_path =
     (let full_path = os_path_join lb ''input'' video_path in
      case cv2_VideoCapture lb full_path of
        None \<Rightarrow> Inr (print w (Cannot_open full_path), frames)
      | Some cap \<Rightarrow>
          (case read_frames w cap [] of (w1, new_frames) \<Rightarrow>
             let w2 = print w1 (Appended_frames (length new_frames) video_path)
             in Inr (new_list w2 (seq w2 frames @ new_frames))))"

definition append_image :: "lib \<Rightarrow> world \<Rightarrow> ref \<Rightarrow> string \<Rightarrow> error + world \<times> ref" where
  "append_image lb w frames image_path =
     (let full_path = os_path_join lb ''input'' image_path in
      case cv2_imread lb full_path of
        None \<Rightarrow> Inr (print w (Cannot_open_image image_path), frames)
      | Some a \<Rightarrow>
          (case new_array w a of (w1, img) \<Rightarrow>
             let w2 = print w1 (Appended_image image_path)
             in Inr (new_list w2 (seq w2 frames @ [img]))))"

definition cut :: "world \<Rightarrow> ref \<Rightarrow> int \<Rightarrow> int \<Rightarrow> error + world \<times> ref" where
  "cut w frames start count =
     (if \<not> (start \<ge> 0 \<and> count \<ge> 0) then Inl AssertionError
      else
        let end_idx = int (length (seq w frames)) - start;
            start_idx = max 0 (end_idx - count)
        in case new_list w (slice_to (seq w frames) start_idx @ slice_from (seq w frames) end_idx) of
             (w1, new_frames) \<Rightarrow>
               Inr (print w1 (Cut_frames count start start_idx end_idx), new_frames))"

text \<open>
  A list comprehension \<open>[e(f) for f in frames]\<close>: the element expression runs on each
  reference in turn, may create an array, and an exception it raises ends the whole.
\<close>

fun comprehension ::
  "(world \<Rightarrow> ref \<Rightarrow> error + world \<times> ref) \<Rightarrow> world \<Rightarrow> ref list \<Rightarrow> error + world \<times> ref list" where
  "comprehension e w [] = Inr (w, [])"
| "comprehension e w (f # fs) =
     (case e w f of
        Inl err \<Rightarrow> Inl err
      | Inr (w1, r) \<Rightarrow>
          (case comprehension e w1 fs of
             Inl err \<Rightarrow> Inl err
           | Inr (w2, rs) \<Rightarrow> Inr (w2, r # rs)))"

text \<open>A call into OpenCV that returns a new array.\<close>

definition returning :: "world \<Rightarrow> error + frame \<Rightarrow> error + world \<times> ref" where
  "returning w res = (case res of Inl err \<Rightarrow> Inl err | Inr a \<Rightarrow> Inr (new_array w a))"

definition to_grayscale :: "lib \<Rightarrow> world \<Rightarrow> ref \<Rightarrow> error + world \<times> ref" where
  "to_grayscale lb w frames =
     (case comprehension (\<lambda>w f. returning w (cv2_cvtColor lb (arrays w ! f) COLOR_BGR2GRAY))
             w (seq w frames) of
        Inl err \<Rightarrow> Inl err
      | Inr (w1, rs) \<Rightarrow> Inr (new_list w1 rs))"

definition ensure_3channel :: "lib \<Rightarrow> world \<Rightarrow> ref \<Rightarrow> error + world \<times> ref" where
  "ensure_3channel lb w frames =
     (case comprehension
             (\<lambda>w f. if length (shape (arrays w ! f)) = 2
                     then returning w (cv2_cvtColor lb (arrays w ! f) COLOR_GRAY2BGR)
                     else Inr (w, f))
             w (seq w frames) of
        Inl err \<Rightarrow> Inl err
      | Inr (w1, rs) \<Rightarrow> Inr (new_list w1 rs))"

definition blur_frames :: "lib \<Rightarrow> world \<Rightarrow> ref \<Rightarrow> int list \<Rightarrow> error + world \<times> ref" where
  "blur_frames lb w frames ksize =
     (case comprehension (\<lambda>w f. returning w (cv2_GaussianBlur lb (arrays w ! f) ksize 0))
             w (seq w frames) of
        Inl err \<Rightarrow> Inl err
      | Inr (w1, rs) \<Rightarrow> Inr (new_list w1 rs))"

text \<open>The loop of \<open>overlay_text\<close>: \<open>cv2.putText\<close> draws into the array \<open>f\<close> refers to.\<close>

fun draw_each :: "lib \<Rightarrow> world \<Rightarrow> ref list \<Rightarrow> string \<Rightarrow> int list \<Rightarrow> int list \<Rightarrow> error + world" where
  "draw_each lb w [] text position color = Inr w"
| "draw_each lb w (f # fs) text position color =
     (case cv2_putText lb (arrays w ! f) text position FONT_HERSHEY_SIMPLEX 1 color 2 of
        Inl err \<Rightarrow> Inl err
      | Inr a \<Rightarrow> draw_each lb (w\<lparr>arrays := (arrays w)[f := a]\<rparr>) fs text position color)"

definition overlay_text ::
  "lib \<Rightarrow> world \<Rightarrow> ref \<Rightarrow> string \<Rightarrow> int list \<Rightarrow> int list \<Rightarrow> error + world \<times> ref" where
  "overlay_text lb w frames text position color =
     (case draw_each lb w (seq w frames) text position color of
        Inl err \<Rightarrow> Inl err
      | Inr w1 \<Rightarrow> Inr (w1, frames))"

subsection \<open>Pipeline engine\<close>

text \<open>
  A step is a tuple \<open>(func, *args)\<close>. Here it is the name of \<open>func\<close>, the arguments as they
  are printed, and \<open>func\<close> with its arguments bound: the function of the store and the
  current list that \<open>func(frames, *args)\<close> is.
\<close>

record step =
  func_name :: string
  args :: "arg list"
  call :: "world \<Rightarrow> ref \<Rightarrow> error + world \<times> ref"

definition run_step :: "step \<Rightarrow> world \<Rightarrow> ref \<Rightarrow> error + world \<times> ref" where
  "run_step st w frames = call st (print w (Applying (func_name st) (args st))) frames"

fun apply_pipeline :: "world \<Rightarrow> ref \<Rightarrow> step list \<Rightarrow> error + world \<times> ref" where
  "apply_pipeline w frames [] = Inr (w, frames)"
| "apply_pipeline w frames (st # pipeline) =
     (case run_step st w frames of
        Inl err \<Rightarrow> Inl err
      | Inr (w1, frames1) \<Rightarrow> apply_pipeline w1 frames1 pipeline)"

text \<open>Steps as \<open>main\<close> writes them: \<open>(append_video, path)\<close>, \<open>(append_image, path)\<close>, \<open>(cut, start, count)\<close>.\<close>

definition step_append_video :: "lib \<Rightarrow> string \<Rightarrow> step" where
  "step_append_video lb video_path =
     \<lparr>func_name = ''append_video'', args = [PyStr video_path],
      call = (\<lambda>w frames. append_video lb w frames video_path)\<rparr>"

definition step_append_image :: "lib \<Rightarrow> string \<Rightarrow> step" where
  "step_append_image lb image_path =
     \<lparr>func_name = ''append_image'', args = [PyStr image_path],
      call = (\<lambda>w frames. append_image lb w frames image_path)\<rparr>"

definition step_cut :: "int \<Rightarrow> int \<Rightarrow> step" where
  "step_cut start count =
     \<lparr>func_name = ''cut'', args = [PyInt start, PyInt count],
      call = (\<lambda>w frames. cut w frames start count)\<rparr>"

subsection \<open>Observations and synthetic data\<close>

text \<open>What a call returned: the references in the list it handed back, and the frames there.\<close>

definition returned :: "error + world \<times> ref \<Rightarrow> error + ref list" where
  "returned res = (case res of Inl err \<Rightarrow> Inl err | Inr (w, l) \<Rightarrow> Inr (seq w l))"

definition returned_frames :: "error + world \<times> ref \<Rightarrow> error + frame list" where
  "returned_frames res = (case res of Inl err \<Rightarrow> Inl err | Inr (w, l) \<Rightarrow> Inr (frames_of w l))"

text \<open>
  Synthetic frames tagged by their original index: \<open>synthetic n\<close> is a store with \<open>n\<close> such
  frames, frame \<open>i\<close> at reference \<open>i\<close>, and one list object, at reference \<open>0\<close>, holding them
  in order.
\<close>

definition tagged :: "nat \<Rightarrow> frame" where
  "tagged i = \<lparr>shape = [1, 1, 3], pixels = [i, i, i]\<rparr>"

definition tag :: "frame \<Rightarrow> nat" where
  "tag f = hd (pixels f)"

definition synthetic :: "nat \<Rightarrow> world" where
  "synthetic n = \<lparr>arrays = map tagged [0..<n], list_objs = [[0..<n]], stdout = []\<rparr>"

definition surviving :: "error + world \<times> ref \<Rightarrow> nat set" where
  "surviving res = (case res of Inl err \<Rightarrow> {} | Inr (w, l) \<Rightarrow> set (map tag (frames_of w l)))"

text \<open>
  The length the specification gives for the result of \<open>cut\<close> on a sequence of length \<open>n\<close>,
  written as the specification writes it.
\<close>

definition spec_cut_length :: "int \<Rightarrow> int \<Rightarrow> int \<Rightarrow> int" where
  "spec_cut_length n start count =
     n - (min n (max 0 (n - start)) - max 0 (max 0 (n - start) - count))"

subsection \<open>Objects that stay as they were\<close>

text \<open>
  A reference is valid when it points to an object of the store: \<open>valid w l\<close> says so of
  the list \<open>l\<close> and of every frame in it.
\<close>

definition valid :: "world \<Rightarrow> ref \<Rightarrow> bool" where
  "valid w l = (l < length (list_objs w) \<and> (\<forall>a\<in>set (seq w l). a < length (arrays w)))"

text \<open>
  \<open>allocates w w'\<close>: \<open>w'\<close> is \<open>w\<close> with arrays created at the end and nothing else changed.
  \<open>kept w l w'\<close>: every array and every list object of \<open>w\<close> is in \<open>w'\<close> as it was; the list \<open>l\<close>
  still holds the same references, and they point to the same frames.
\<close>

definition allocates :: "world \<Rightarrow> world \<Rightarrow> bool" where
  "allocates w w' = (prefix (arrays w) (arrays w') \<and> list_objs w' = list_objs w \<and> stdout w' = stdout w)"

definition kept :: "world \<Rightarrow> ref \<Rightarrow> world \<Rightarrow> bool" where
  "kept w l w' =
     (prefix (arrays w) (arrays w') \<and> prefix (list_objs w) (list_objs w') \<and>
      seq w' l = seq w l \<and> frames_of w' l = frames_of w l)"

subsection \<open>A stand-in for the libraries\<close>

text \<open>
  A small library to run the operations on: two files exist below \<open>input\<close>, a clip of two
  frames and a still image; a colour conversion drops or adds the channel axis; the blur
  returns its input; \<open>putText\<close> paints every element white.
\<close>

definition test_lib :: lib where
  "test_lib =
     \<lparr>os_path_join = (\<lambda>a b. a @ ''/'' @ b),
      cv2_VideoCapture = (\<lambda>p. if p = ''input/clip.webm'' then Some [tagged 7, tagged 8] else None),
      cv2_imread = (\<lambda>p. if p = ''input/still.png'' then Some (tagged 9) else None),
      cv2_cvtColor = (\<lambda>f c.
         case c of
           COLOR_BGR2GRAY \<Rightarrow>
             if length (shape f) = 3
             then Inr \<lparr>shape = butlast (shape f), pixels = take (length (pixels f) div 3) (pixels f)\<rparr>
             else Inl Cv2_error
         | COLOR_GRAY2BGR \<Rightarrow>
             if length (shape f) = 2
             then Inr \<lparr>shape = shape f @ [3], pixels = concat (map (\<lambda>p. [p, p, p]) (pixels f))\<rparr>
             else Inl Cv2_error),
      cv2_GaussianBlur = (\<lambda>f ksize sigma. Inr f),
      cv2_putText = (\<lambda>f text position face scale color thickness.
         Inr (f\<lparr>pixels := map (\<lambda>p. 255) (pixels f)\<rparr>))\<rparr>"

text \<open>A store with a single-channel frame and a three-channel frame in one list.\<close>

definition gray_and_colour :: world where
  "gray_and_colour =
     \<lparr>arrays = [\<lparr>shape = [1, 1], pixels = [5]\<rparr>, tagged 1], list_objs = [[0, 1]], stdout = []\<rparr>"

section \<open>Properties of cut\<close>

lemma cut_nonneg:
  assumes "0 \<le> start" "0 \<le> count"
  shows "cut w l start count =
    Inr (print (fst (new_list w
            (slice_to (seq w l) (max 0 (int (length (seq w l)) - start - count)) @
             slice_from (seq w l) (int (length (seq w l)) - start))))
          (Cut_frames count start (max 0 (int (length (seq w l)) - start - count))
             (int (length (seq w l)) - start)),
         length (list_objs w))"
  using assms by (simp add: cut_def Let_def new_list_def)

lemma seq_print_new_list: "seq (print (fst (new_list w xs)) m) (length (list_objs w)) = xs"
  by (simp add: new_list_def seq_def print_def)

lemma arrays_print_new_list: "arrays (print (fst (new_list w xs)) m) = arrays w"
  by (simp add: new_list_def print_def)

lemma returned_cut:
  assumes "0 \<le> start" "0 \<le> count"
  shows "returned (cut w l start count) =
    Inr (slice_to (seq w l) (max 0 (int (length (seq w l)) - start - count)) @
         slice_from (seq w l) (int (length (seq w l)) - start))"
  by (simp add: cut_nonneg [OF assms] returned_def seq_print_new_list)

lemma seq_synthetic: "seq (synthetic n) 0 = [0..<n]"
  by (simp add: synthetic_def seq_def)

text \<open>
  Where \<open>start\<close> does not exceed the length, the result has the length the specification
  gives.
\<close>

lemma cut_length_start_within:
  assumes "0 \<le> start" "0 \<le> count" "start \<le> int (length (seq w l))"
  shows "\<exists>xs. returned (cut w l start count) = Inr xs \<and>
              int (length xs) = spec_cut_length (int (length (seq w l))) start count"
  using assms
  by (simp add: returned_cut slice_to_def slice_from_def slice_bound_def spec_cut_length_def)

text \<open>
  C1: for non-negative \<open>start\<close> and \<open>count\<close> the length of the result of \<open>cut\<close> is to be
  \<open>spec_cut_length\<close>, whatever the size of \<open>start\<close>. On three frames with \<open>start = 4\<close> and
  \<open>count = 0\<close> the end index is \<open>-1\<close>, the slice \<open>frames[-1:]\<close> is the last frame, and the
  result has one frame where the specification gives three: nothing was to be removed,
  and two frames are.
\<close>

theorem cut_length_start_exceeds_length:
  "returned (cut (synthetic 3) 0 4 0) = Inr [2] \<and> spec_cut_length 3 4 0 = 3"
  by code_simp

text \<open>
  C3: for non-negative \<open>start\<close> and \<open>count\<close>, however large, \<open>cut\<close> raises nothing: it
  returns a list.
\<close>

theorem cut_never_raises:
  "0 \<le> start \<Longrightarrow> 0 \<le> count \<Longrightarrow> \<exists>w' l'. cut w l start count = Inr (w', l')"
  by (simp add: cut_nonneg)

theorem cut_never_raises_witness:
  "(0::int) \<le> 1000 \<and> (0::int) \<le> 2000 \<and> (\<exists>w' l'. cut (synthetic 3) 0 1000 2000 = Inr (w', l'))"
  using cut_never_raises [of 1000 2000 "synthetic 3" 0] by simp

text \<open>
  C4: with a negative \<open>start\<close> or a negative \<open>count\<close>, \<open>cut\<close> fails with the assertion's
  error and produces no list; a pipeline that reaches such a step ends with that error,
  whatever steps follow.
\<close>

theorem cut_negative_fails:
  "start < 0 \<or> count < 0 \<Longrightarrow>
     cut w l start count = Inl AssertionError \<and>
     apply_pipeline w l (step_cut start count # pipeline) = Inl AssertionError"
  by (auto simp add: cut_def run_step_def step_cut_def)

theorem cut_negative_fails_witness:
  "((-1::int) < 0 \<or> (5::int) < 0) \<and>
   cut (synthetic 3) 0 (-1) 5 = Inl AssertionError \<and>
   apply_pipeline (synthetic 3) 0 [step_cut (-1) 5, step_cut 0 0] = Inl AssertionError"
  using cut_negative_fails [of "-1" 5 "synthetic 3" 0 "[step_cut 0 0]"] by simp

text \<open>
  C9: \<open>cut\<close> with \<open>start = 0\<close> and \<open>count = 0\<close> returns a list with the references of the
  input in the same order, and so with the same frames.
\<close>

theorem cut_zero_zero_identity:
  "returned (cut w l 0 0) = Inr (seq w l) \<and>
   returned_frames (cut w l 0 0) = Inr (frames_of w l)"
  by (simp add: cut_nonneg returned_def returned_frames_def frames_of_def seq_print_new_list
      arrays_print_new_list slice_to_def slice_from_def slice_bound_def)

text \<open>
  C10: let \<open>n\<close> be the length of the sequence and \<open>count\<close> be non-negative. When
  \<open>n < start \<le> 2 * n\<close>, \<open>cut\<close> returns the last \<open>start - n\<close> frames, whatever \<open>count\<close> is;
  when \<open>2 * n < start\<close> it returns the whole sequence.
\<close>

theorem cut_start_beyond_length:
  assumes "0 \<le> count"
  shows "(int (length (seq w l)) < start \<and> start \<le> 2 * int (length (seq w l)) \<longrightarrow>
            returned (cut w l start count) =
              Inr (drop (length (seq w l) - nat (start - int (length (seq w l)))) (seq w l)))
       \<and> (2 * int (length (seq w l)) < start \<longrightarrow>
            returned (cut w l start count) = Inr (seq w l))"
proof (intro conjI impI)
  assume a: "int (length (seq w l)) < start \<and> start \<le> 2 * int (length (seq w l))"
  then have s: "0 \<le> start" by linarith
  have "nat (2 * int (length (seq w l)) - start) =
        length (seq w l) - nat (start - int (length (seq w l)))"
    using a by linarith
  with a show "returned (cut w l start count) =
      Inr (drop (length (seq w l) - nat (start - int (length (seq w l)))) (seq w l))"
    using assms
    by (simp add: returned_cut [OF s assms] slice_to_def slice_from_def slice_bound_def)
next
  assume a: "2 * int (length (seq w l)) < start"
  then have s: "0 \<le> start" by linarith
  from a show "returned (cut w l start count) = Inr (seq w l)"
    using assms
    by (simp add: returned_cut [OF s assms] slice_to_def slice_from_def slice_bound_def)
qed

theorem cut_start_beyond_length_witness:
  "(0::int) \<le> 9 \<and>
   int (length (seq (synthetic 3) 0)) < 4 \<and> 4 \<le> 2 * int (length (seq (synthetic 3) 0)) \<and>
   returned (cut (synthetic 3) 0 4 9) = Inr (drop 2 (seq (synthetic 3) 0)) \<and>
   2 * int (length (seq (synthetic 3) 0)) < 7 \<and>
   returned (cut (synthetic 3) 0 7 9) = Inr (seq (synthetic 3) 0)"
  using cut_start_beyond_length [of 9 "synthetic 3" 0 4]
    cut_start_beyond_length [of 9 "synthetic 3" 0 7]
  by (simp add: seq_synthetic)

subsection \<open>The scenario of 500 frames\<close>

lemma slice_to_upt: "k \<le> n \<Longrightarrow> slice_to [0..<n] (int k) = [0..<k]"
  by (simp add: slice_to_def slice_bound_def min_def)

lemma slice_from_upt: "k \<le> n \<Longrightarrow> slice_from [0..<n] (int k) = [k..<n]"
  by (simp add: slice_from_def slice_bound_def min_def)

lemma cut_synthetic:
  assumes "s + c \<le> n"
  shows "\<exists>w'. cut (synthetic n) 0 (int s) (int c) = Inr (w', 1) \<and>
           seq w' 1 = [0..<n - s - c] @ [n - s..<n] \<and> arrays w' = map tagged [0..<n]"
proof -
  have e2: "int (length [0..<n]) - int s = int (n - s)" using assms by simp
  have e1: "max 0 (int (n - s) - int c) = int (n - s - c)" using assms by linarith
  have k: "n - s - c \<le> n" "n - s \<le> n" by simp_all
  have "cut (synthetic n) 0 (int s) (int c) =
     Inr (print (fst (new_list (synthetic n) ([0..<n - s - c] @ [n - s..<n])))
            (Cut_frames (int c) (int s) (int (n - s - c)) (int (n - s))), 1)"
    unfolding cut_nonneg [of "int s" "int c", simplified] seq_synthetic e2 e1
      slice_to_upt [OF k(1)] slice_from_upt [OF k(2)]
    by (simp add: synthetic_def)
  then show ?thesis
    by (simp add: seq_def print_def new_list_def synthetic_def)
qed

lemma tags_of_synthetic:
  assumes "arrays w' = map tagged [0..<n]" "\<forall>a\<in>set (seq w' l'). a < n"
  shows "map tag (frames_of w' l') = seq w' l'"
  using assms by (simp add: frames_of_def tag_def tagged_def map_idI)

lemma surviving_cut_synthetic:
  assumes "s + c \<le> n"
  shows "surviving (cut (synthetic n) 0 (int s) (int c)) = {0..<n - s - c} \<union> {n - s..<n}"
proof -
  from cut_synthetic [OF assms] obtain w' where
    c: "cut (synthetic n) 0 (int s) (int c) = Inr (w', 1)" and
    s: "seq w' 1 = [0..<n - s - c] @ [n - s..<n]" and a: "arrays w' = map tagged [0..<n]"
    by blast
  have "\<forall>a\<in>set (seq w' 1). a < n" using s by auto
  then have "map tag (frames_of w' 1) = seq w' 1" by (rule tags_of_synthetic [OF a])
  then have "set (map tag (frames_of w' 1)) = {0..<n - s - c} \<union> {n - s..<n}"
    using s by (simp del: set_map upt_rec_numeral)
  then show ?thesis by (simp add: surviving_def c del: set_map)
qed

text \<open>
  C2, as stated: on 500 frames tagged by index, \<open>cut\<close> with \<open>start = 300\<close> and \<open>count = 50\<close>
  is to leave the indices \<open>0..149\<close> and \<open>450..499\<close>. It does not: frame 200 survives.
\<close>

theorem scenario_500_counterexample:
  "surviving (cut (synthetic 500) 0 300 50) \<noteq> {0..149} \<union> {450..499}"
proof -
  have le: "300 + 50 \<le> (500::nat)" by simp
  have "(200::nat) \<in> {0..<500 - 300 - 50} \<union> {500 - 300..<500}" by simp
  then have "200 \<in> surviving (cut (synthetic 500) 0 300 50)"
    using surviving_cut_synthetic [OF le] by simp
  moreover have "(200::nat) \<notin> {0..149} \<union> {450..499}" by simp
  ultimately show ?thesis by metis
qed

text \<open>
  C2, amended: on 500 frames tagged by index, \<open>cut\<close> with \<open>start = 300\<close> and \<open>count = 50\<close>
  removes the window from index 150 up to, not including, index 200; 450 frames are
  left, and the surviving indices are \<open>0..149\<close> and \<open>200..499\<close>.
\<close>

theorem scenario_500_cut_300_50:
  "returned (cut (synthetic 500) 0 300 50) = Inr ([0..<150] @ [200..<500]) \<and>
   length ([0..<150] @ [200..<500]) = 450 \<and>
   surviving (cut (synthetic 500) 0 300 50) = {0..149} \<union> {200..499}"
proof (intro conjI)
  have le: "300 + 50 \<le> (500::nat)" by simp
  from cut_synthetic [OF le]
  show "returned (cut (synthetic 500) 0 300 50) = Inr ([0..<150] @ [200..<500])"
    by (auto simp add: returned_def simp del: upt_rec_numeral)
  show "length ([0..<150] @ [200..<500]) = 450" by (simp del: upt_rec_numeral)
  have "{0..<500 - 300 - 50} \<union> {500 - 300..<500} = {0..149} \<union> {200..499::nat}" by auto
  with surviving_cut_synthetic [OF le]
  show "surviving (cut (synthetic 500) 0 300 50) = {0..149} \<union> {200..499}" by simp
qed

section \<open>Properties of the pipeline engine\<close>

text \<open>
  C5: the engine applies the steps in the order of the list, each on the result of the one
  before. The empty list returns what it was given; for the steps \<open>[A, B]\<close> the result is
  \<open>B\<close> run on the result of \<open>A\<close>; a list \<open>xs @ ys\<close> is \<open>ys\<close> run on the result of \<open>xs\<close>. The
  order is observable: two cuts give one result in one order and another in the other.
\<close>

theorem apply_pipeline_declared_order:
  "apply_pipeline w l [] = Inr (w, l) \<and>
   apply_pipeline w l [A, B] =
     (case run_step A w l of Inl err \<Rightarrow> Inl err | Inr (w1, l1) \<Rightarrow> run_step B w1 l1) \<and>
   apply_pipeline w l (xs @ ys) =
     (case apply_pipeline w l xs of
        Inl err \<Rightarrow> Inl err
      | Inr (w1, l1) \<Rightarrow> apply_pipeline w1 l1 ys) \<and>
   returned (apply_pipeline (synthetic 2) 0 [step_cut 0 1, step_cut 1 1]) = Inr [0] \<and>
   returned (apply_pipeline (synthetic 2) 0 [step_cut 1 1, step_cut 0 1]) = Inr []"
proof (intro conjI)
  show "apply_pipeline w l [] = Inr (w, l)" by simp
  show "apply_pipeline w l [A, B] =
     (case run_step A w l of Inl err \<Rightarrow> Inl err | Inr (w1, l1) \<Rightarrow> run_step B w1 l1)"
    by (simp split: sum.splits prod.splits)
  show "apply_pipeline w l (xs @ ys) =
     (case apply_pipeline w l xs of
        Inl err \<Rightarrow> Inl err
      | Inr (w1, l1) \<Rightarrow> apply_pipeline w1 l1 ys)"
    by (induction xs arbitrary: w l) (simp_all split: sum.splits prod.splits)
  show "returned (apply_pipeline (synthetic 2) 0 [step_cut 0 1, step_cut 1 1]) = Inr [0]"
    by code_simp
  show "returned (apply_pipeline (synthetic 2) 0 [step_cut 1 1, step_cut 0 1]) = Inr []"
    by code_simp
qed

section \<open>Sources that cannot be opened\<close>

lemma seq_print: "seq (print w m) l = seq w l"
  by (simp add: seq_def print_def)

lemma seq_new_list: "seq (fst (new_list w xs)) (length (list_objs w)) = xs"
  by (simp add: new_list_def seq_def)

text \<open>
  C8: when the capture does not open, \<open>append_video\<close> prints the error and returns the list
  it was given, in a store where nothing but the output has changed; \<open>append_image\<close> does
  the same when the image cannot be read; the engine goes on with the steps that follow.
  On an empty list, the failed \<open>append_video\<close> leaves the list empty, and a \<open>cut\<close> after it
  returns an empty list.
\<close>

theorem source_unavailable_is_tolerated:
  "(cv2_VideoCapture lb (os_path_join lb ''input'' p) = None \<longrightarrow>
      append_video lb w l p = Inr (print w (Cannot_open (os_path_join lb ''input'' p)), l) \<and>
      returned (append_video lb w l p) = Inr (seq w l) \<and>
      apply_pipeline w l (step_append_video lb p # rest) =
        apply_pipeline
          (print (print w (Applying ''append_video'' [PyStr p]))
             (Cannot_open (os_path_join lb ''input'' p))) l rest) \<and>
   (cv2_imread lb (os_path_join lb ''input'' q) = None \<longrightarrow>
      append_image lb w l q = Inr (print w (Cannot_open_image q), l) \<and>
      returned (append_image lb w l q) = Inr (seq w l) \<and>
      apply_pipeline w l (step_append_image lb q # rest) =
        apply_pipeline
          (print (print w (Applying ''append_image'' [PyStr q])) (Cannot_open_image q)) l rest) \<and>
   (cv2_VideoCapture lb (os_path_join lb ''input'' p) = None \<and> seq w l = [] \<and>
    0 \<le> start \<and> 0 \<le> count \<longrightarrow>
      returned (apply_pipeline w l [step_append_video lb p]) = Inr [] \<and>
      returned (apply_pipeline w l [step_append_video lb p, step_cut start count]) = Inr [])"
proof (intro conjI impI)
  assume a: "cv2_VideoCapture lb (os_path_join lb ''input'' p) = None"
  then show v: "append_video lb w l p = Inr (print w (Cannot_open (os_path_join lb ''input'' p)), l)"
    by (simp add: append_video_def)
  then show "returned (append_video lb w l p) = Inr (seq w l)"
    by (simp add: returned_def seq_print)
  from a show "apply_pipeline w l (step_append_video lb p # rest) =
        apply_pipeline
          (print (print w (Applying ''append_video'' [PyStr p]))
             (Cannot_open (os_path_join lb ''input'' p))) l rest"
    by (simp add: run_step_def step_append_video_def append_video_def)
next
  assume a: "cv2_imread lb (os_path_join lb ''input'' q) = None"
  then show v: "append_image lb w l q = Inr (print w (Cannot_open_image q), l)"
    by (simp add: append_image_def)
  then show "returned (append_image lb w l q) = Inr (seq w l)"
    by (simp add: returned_def seq_print)
  from a show "apply_pipeline w l (step_append_image lb q # rest) =
        apply_pipeline
          (print (print w (Applying ''append_image'' [PyStr q])) (Cannot_open_image q)) l rest"
    by (simp add: run_step_def step_append_image_def append_image_def)
next
  assume a: "cv2_VideoCapture lb (os_path_join lb ''input'' p) = None \<and> seq w l = [] \<and>
    0 \<le> start \<and> 0 \<le> count"
  then show "returned (apply_pipeline w l [step_append_video lb p]) = Inr []"
    by (simp add: run_step_def step_append_video_def append_video_def returned_def seq_print)
  from a show "returned (apply_pipeline w l [step_append_video lb p, step_cut start count]) = Inr []"
    by (simp add: run_step_def step_append_video_def append_video_def step_cut_def
        cut_nonneg returned_def seq_print seq_new_list
        slice_to_def slice_from_def slice_bound_def)
qed

theorem source_unavailable_is_tolerated_witness:
  "cv2_VideoCapture test_lib (os_path_join test_lib ''input'' ''missing.webm'') = None \<and>
   cv2_imread test_lib (os_path_join test_lib ''input'' ''drool.gif'') = None \<and>
   seq (synthetic 0) 0 = [] \<and> (0::int) \<le> 300 \<and> (0::int) \<le> 50 \<and>
   append_video test_lib (synthetic 0) 0 ''missing.webm'' =
     Inr (print (synthetic 0) (Cannot_open ''input/missing.webm''), 0) \<and>
   append_image test_lib (synthetic 0) 0 ''drool.gif'' =
     Inr (print (synthetic 0) (Cannot_open_image ''drool.gif''), 0) \<and>
   returned (apply_pipeline (synthetic 0) 0
      [step_append_video test_lib ''missing.webm'', step_cut 300 50]) = Inr []"
  using source_unavailable_is_tolerated [of test_lib "''missing.webm''" "synthetic 0" 0 "[]" "''drool.gif''" 300 50]
  by (simp add: test_lib_def seq_synthetic)


section \<open>What the operations do to their input\<close>

lemma prefix_nth: "prefix xs ys \<Longrightarrow> i < length xs \<Longrightarrow> ys ! i = xs ! i"
  by (auto simp add: prefix_def nth_append)

lemma keptI:
  assumes "valid w l" "prefix (arrays w) (arrays w')" "prefix (list_objs w) (list_objs w')"
  shows "kept w l w'"
proof -
  from assms(1,3) have s: "seq w' l = seq w l"
    by (simp add: valid_def seq_def prefix_nth)
  have "map (\<lambda>a. arrays w' ! a) (seq w l) = map (\<lambda>a. arrays w ! a) (seq w l)"
    using assms(1,2) by (auto simp add: valid_def prefix_nth)
  with s assms show ?thesis by (simp add: kept_def frames_of_def)
qed

lemma allocates_refl: "allocates w w"
  by (simp add: allocates_def)

lemma allocates_trans: "allocates w w1 \<Longrightarrow> allocates w1 w2 \<Longrightarrow> allocates w w2"
  by (auto simp add: allocates_def)

lemma returning_allocates: "returning w res = Inr (w', r) \<Longrightarrow> allocates w w'"
  by (auto simp add: returning_def new_array_def allocates_def split: sum.splits)

lemma comprehension_allocates:
  assumes e: "\<And>w f w' r. e w f = Inr (w', r) \<Longrightarrow> allocates w w'"
  shows "comprehension e w fs = Inr (w', rs) \<Longrightarrow> allocates w w'"
proof (induction fs arbitrary: w w' rs)
  case Nil
  then show ?case by (simp add: allocates_refl)
next
  case (Cons f fs)
  from Cons.prems obtain w1 r rs1 where
    1: "e w f = Inr (w1, r)" and 2: "comprehension e w1 fs = Inr (w', rs1)"
    by (auto split: sum.splits prod.splits)
  from e [OF 1] Cons.IH [OF 2] show ?case by (rule allocates_trans)
qed

lemma comprehension_call:
  assumes e: "\<And>w f w' r. e w f = Inr (w', r) \<Longrightarrow> allocates w w'"
    and r: "(case comprehension e w (seq w l) of
               Inl err \<Rightarrow> Inl err
             | Inr (w1, rs) \<Rightarrow> Inr (new_list w1 rs)) = Inr (w', l')"
  shows "prefix (arrays w) (arrays w') \<and> prefix (list_objs w) (list_objs w') \<and>
         l' = length (list_objs w)"
proof -
  from r obtain w1 rs where c: "comprehension e w (seq w l) = Inr (w1, rs)"
    and n: "new_list w1 rs = (w', l')"
    by (auto split: sum.splits prod.splits)
  from comprehension_allocates [of e, OF e c] have "allocates w w1" .
  with n show ?thesis by (auto simp add: allocates_def new_list_def)
qed

lemma read_frames_allocates: "read_frames w cap acc = (w', rs) \<Longrightarrow> allocates w w'"
proof (induction cap arbitrary: w acc)
  case Nil
  then show ?case by (simp add: allocates_refl)
next
  case (Cons a cap)
  from Cons.prems have "read_frames (fst (new_array w a)) cap (acc @ [snd (new_array w a)]) = (w', rs)"
    by (simp add: new_array_def)
  from Cons.IH [OF this] have "allocates (fst (new_array w a)) w'" .
  moreover have "allocates w (fst (new_array w a))" by (simp add: allocates_def new_array_def)
  ultimately show ?case using allocates_trans by blast
qed

lemma cut_call:
  assumes "cut w l start count = Inr (w', l')"
  shows "prefix (arrays w) (arrays w') \<and> prefix (list_objs w) (list_objs w') \<and>
         l' = length (list_objs w)"
  using assms by (auto simp add: cut_def Let_def new_list_def print_def split: if_splits)

lemma to_grayscale_call:
  assumes "to_grayscale lb w l = Inr (w', l')"
  shows "prefix (arrays w) (arrays w') \<and> prefix (list_objs w) (list_objs w') \<and>
         l' = length (list_objs w)"
  by (rule comprehension_call [OF _ assms [unfolded to_grayscale_def]]) (rule returning_allocates)

lemma blur_frames_call:
  assumes "blur_frames lb w l ksize = Inr (w', l')"
  shows "prefix (arrays w) (arrays w') \<and> prefix (list_objs w) (list_objs w') \<and>
         l' = length (list_objs w)"
  by (rule comprehension_call [OF _ assms [unfolded blur_frames_def]]) (rule returning_allocates)

lemma ensure_3channel_call:
  assumes "ensure_3channel lb w l = Inr (w', l')"
  shows "prefix (arrays w) (arrays w') \<and> prefix (list_objs w) (list_objs w') \<and>
         l' = length (list_objs w)"
  by (rule comprehension_call [OF _ assms [unfolded ensure_3channel_def]])
    (auto simp add: allocates_refl returning_allocates split: if_splits)

lemma append_video_call:
  assumes "append_video lb w l path = Inr (w', l')"
  shows "prefix (arrays w) (arrays w') \<and> prefix (list_objs w) (list_objs w') \<and>
         l' = (if cv2_VideoCapture lb (os_path_join lb ''input'' path) = None then l
               else length (list_objs w))"
proof (cases "cv2_VideoCapture lb (os_path_join lb ''input'' path)")
  case None
  with assms show ?thesis by (auto simp add: append_video_def print_def)
next
  case (Some cap)
  obtain w1 rs where r: "read_frames w cap [] = (w1, rs)" by (cases "read_frames w cap []")
  from read_frames_allocates [OF r] have "allocates w w1" .
  with assms Some r show ?thesis
    by (auto simp add: append_video_def Let_def new_list_def print_def allocates_def)
qed

lemma append_image_call:
  assumes "append_image lb w l path = Inr (w', l')"
  shows "prefix (arrays w) (arrays w') \<and> prefix (list_objs w) (list_objs w') \<and>
         l' = (if cv2_imread lb (os_path_join lb ''input'' path) = None then l
               else length (list_objs w))"
  using assms
  by (auto simp add: append_image_def Let_def new_list_def new_array_def print_def
      split: option.splits)


lemma draw_each_frame:
  assumes "draw_each lb w fs text position color = Inr w'"
  shows "list_objs w' = list_objs w \<and> stdout w' = stdout w \<and>
         length (arrays w') = length (arrays w) \<and>
         (\<forall>a. a \<notin> set fs \<longrightarrow> arrays w' ! a = arrays w ! a)"
  using assms
proof (induction fs arbitrary: w)
  case Nil
  then show ?case by simp
next
  case (Cons f fs)
  from Cons.prems obtain g where
    g: "cv2_putText lb (arrays w ! f) text position FONT_HERSHEY_SIMPLEX 1 color 2 = Inr g"
    and d: "draw_each lb (w\<lparr>arrays := (arrays w)[f := g]\<rparr>) fs text position color = Inr w'"
    by (auto split: sum.splits)
  from Cons.IH [OF d] show ?case by simp
qed

lemma draw_each_drawn:
  assumes "draw_each lb w fs text position color = Inr w'"
    and "distinct fs" and "\<forall>a\<in>set fs. a < length (arrays w)"
  shows "\<forall>a\<in>set fs.
           cv2_putText lb (arrays w ! a) text position FONT_HERSHEY_SIMPLEX 1 color 2 =
             Inr (arrays w' ! a)"
  using assms
proof (induction fs arbitrary: w)
  case Nil
  then show ?case by simp
next
  case (Cons f fs)
  from Cons.prems(1) obtain g where
    g: "cv2_putText lb (arrays w ! f) text position FONT_HERSHEY_SIMPLEX 1 color 2 = Inr g"
    and d: "draw_each lb (w\<lparr>arrays := (arrays w)[f := g]\<rparr>) fs text position color = Inr w'"
    by (auto split: sum.splits)
  from Cons.prems(2) have nf: "f \<notin> set fs" and df: "distinct fs" by simp_all
  from Cons.prems(3) have lf: "f < length (arrays w)" by simp
  from draw_each_frame [OF d] nf lf have "arrays w' ! f = g" by simp
  with g have here: "cv2_putText lb (arrays w ! f) text position FONT_HERSHEY_SIMPLEX 1 color 2 =
      Inr (arrays w' ! f)" by simp
  have "\<forall>a\<in>set fs. a < length (arrays (w\<lparr>arrays := (arrays w)[f := g]\<rparr>))"
    using Cons.prems(3) by simp
  from Cons.IH [OF d df this]
  have ih: "\<forall>a\<in>set fs.
      cv2_putText lb ((arrays w)[f := g] ! a) text position FONT_HERSHEY_SIMPLEX 1 color 2 =
        Inr (arrays w' ! a)"
    by simp
  have "cv2_putText lb (arrays w ! a) text position FONT_HERSHEY_SIMPLEX 1 color 2 =
      Inr (arrays w' ! a)" if "a \<in> set fs" for a
  proof -
    from that nf have "a \<noteq> f" by blast
    then have "(arrays w)[f := g] ! a = arrays w ! a" by simp
    with ih that show ?thesis by fastforce
  qed
  with here show ?case by simp
qed


text \<open>
  C6, as stated: every edit operation leaves the frames of its input as they were. With a
  \<open>putText\<close> that changes the array it draws into, \<open>overlay_text\<close> does not: it returns the
  list it was given, and the frame in it has changed.
\<close>

theorem overlay_text_draws_in_place:
  "overlay_text test_lib (synthetic 1) 0 ''Cats'' [30, 60] [255, 200, 200] =
     Inr (\<lparr>arrays = [\<lparr>shape = [1, 1, 3], pixels = [255, 255, 255]\<rparr>],
           list_objs = [[0]], stdout = []\<rparr>, 0) \<and>
   frames_of \<lparr>arrays = [\<lparr>shape = [1, 1, 3], pixels = [255, 255, 255]\<rparr>],
              list_objs = [[0]], stdout = []\<rparr> 0 \<noteq> frames_of (synthetic 1) 0"
  by code_simp


text \<open>
  C6, amended: \<open>cut\<close>, \<open>to_grayscale\<close>, \<open>ensure_3channel\<close>, \<open>blur_frames\<close>, and \<open>append_video\<close>
  and \<open>append_image\<close> on a source that opens, leave every list and every frame of the store
  as it was, the input list and its frames among them, and return a list that is new. On a
  source that does not open, \<open>append_video\<close> and \<open>append_image\<close> return the input list
  itself, unchanged. \<open>overlay_text\<close> returns the input list itself; it changes no list and
  no frame outside the input list, and each frame of the input list (the frames being
  different objects) has become what \<open>putText\<close> made of it.
\<close>

theorem edit_operations_and_their_input:
  assumes "valid w l"
  shows
   "(\<forall>w' l'. cut w l start count = Inr (w', l') \<longrightarrow>
        kept w l w' \<and> l' = length (list_objs w)) \<and>
    (\<forall>w' l'. to_grayscale lb w l = Inr (w', l') \<longrightarrow>
        kept w l w' \<and> l' = length (list_objs w)) \<and>
    (\<forall>w' l'. ensure_3channel lb w l = Inr (w', l') \<longrightarrow>
        kept w l w' \<and> l' = length (list_objs w)) \<and>
    (\<forall>w' l'. blur_frames lb w l ksize = Inr (w', l') \<longrightarrow>
        kept w l w' \<and> l' = length (list_objs w)) \<and>
    (\<forall>w' l'. append_video lb w l video_path = Inr (w', l') \<longrightarrow>
        kept w l w' \<and>
        l' = (if cv2_VideoCapture lb (os_path_join lb ''input'' video_path) = None then l
              else length (list_objs w))) \<and>
    (\<forall>w' l'. append_image lb w l image_path = Inr (w', l') \<longrightarrow>
        kept w l w' \<and>
        l' = (if cv2_imread lb (os_path_join lb ''input'' image_path) = None then l
              else length (list_objs w))) \<and>
    (\<forall>w' l'. overlay_text lb w l text position color = Inr (w', l') \<longrightarrow>
        l' = l \<and> list_objs w' = list_objs w \<and> length (arrays w') = length (arrays w) \<and>
        (\<forall>a. a \<notin> set (seq w l) \<longrightarrow> arrays w' ! a = arrays w ! a) \<and>
        (distinct (seq w l) \<longrightarrow>
           (\<forall>a\<in>set (seq w l).
              cv2_putText lb (arrays w ! a) text position FONT_HERSHEY_SIMPLEX 1 color 2 =
                Inr (arrays w' ! a))))"
proof (intro conjI allI impI)
  fix w' l'
  assume "cut w l start count = Inr (w', l')"
  from cut_call [OF this] show "kept w l w'" "l' = length (list_objs w)"
    using assms by (simp_all add: keptI)
next
  fix w' l'
  assume "to_grayscale lb w l = Inr (w', l')"
  from to_grayscale_call [OF this] show "kept w l w'" "l' = length (list_objs w)"
    using assms by (simp_all add: keptI)
next
  fix w' l'
  assume "ensure_3channel lb w l = Inr (w', l')"
  from ensure_3channel_call [OF this] show "kept w l w'" "l' = length (list_objs w)"
    using assms by (simp_all add: keptI)
next
  fix w' l'
  assume "blur_frames lb w l ksize = Inr (w', l')"
  from blur_frames_call [OF this] show "kept w l w'" "l' = length (list_objs w)"
    using assms by (simp_all add: keptI)
next
  fix w' l'
  assume "append_video lb w l video_path = Inr (w', l')"
  from append_video_call [OF this] show "kept w l w'"
    "l' = (if cv2_VideoCapture lb (os_path_join lb ''input'' video_path) = None then l
              else length (list_objs w))"
    using assms by (simp_all add: keptI)
next
  fix w' l'
  assume "append_image lb w l image_path = Inr (w', l')"
  from append_image_call [OF this] show "kept w l w'"
    "l' = (if cv2_imread lb (os_path_join lb ''input'' image_path) = None then l
              else length (list_objs w))"
    using assms by (simp_all add: keptI)
next
  fix w' l'
  assume o: "overlay_text lb w l text position color = Inr (w', l')"
  then have d: "draw_each lb w (seq w l) text position color = Inr w'" and l: "l' = l"
    by (auto simp add: overlay_text_def split: sum.splits)
  from l show "l' = l" .
  from draw_each_frame [OF d] show "list_objs w' = list_objs w"
    "length (arrays w') = length (arrays w)" by simp_all
  show "arrays w' ! a = arrays w ! a" if "a \<notin> set (seq w l)" for a
    using draw_each_frame [OF d] that by simp
  from assms have v: "\<forall>a\<in>set (seq w l). a < length (arrays w)" by (simp add: valid_def)
  show "\<forall>a\<in>set (seq w l).
          cv2_putText lb (arrays w ! a) text position FONT_HERSHEY_SIMPLEX 1 color 2 =
            Inr (arrays w' ! a)" if "distinct (seq w l)"
    using draw_each_drawn [OF d that v] .
qed

lemma not_isl: "\<not> isl x \<Longrightarrow> \<exists>w l. x = Inr (w, l)"
  by (cases x) auto

lemma call_at:
  assumes "\<not> isl res" "\<forall>w' l'. res = Inr (w', l') \<longrightarrow> P w' \<and> l' = n"
  shows "\<exists>w'. res = Inr (w', n) \<and> P w'"
  using assms by (cases res) auto

lemma valid_synthetic: "valid (synthetic n) 0"
  by (simp add: valid_def synthetic_def seq_def)

theorem edit_operations_and_their_input_witness:
  "valid (synthetic 2) 0 \<and> distinct (seq (synthetic 2) 0) \<and>
   (\<exists>w'. cut (synthetic 2) 0 1 1 = Inr (w', 1) \<and> kept (synthetic 2) 0 w') \<and>
   (\<exists>w'. to_grayscale test_lib (synthetic 2) 0 = Inr (w', 1) \<and> kept (synthetic 2) 0 w') \<and>
   (\<exists>w'. ensure_3channel test_lib (synthetic 2) 0 = Inr (w', 1) \<and> kept (synthetic 2) 0 w') \<and>
   (\<exists>w'. blur_frames test_lib (synthetic 2) 0 [9, 9] = Inr (w', 1) \<and> kept (synthetic 2) 0 w') \<and>
   (\<exists>w'. append_video test_lib (synthetic 2) 0 ''clip.webm'' = Inr (w', 1) \<and>
      kept (synthetic 2) 0 w') \<and>
   (\<exists>w'. append_image test_lib (synthetic 2) 0 ''still.png'' = Inr (w', 1) \<and>
      kept (synthetic 2) 0 w') \<and>
   (\<exists>w'. overlay_text test_lib (synthetic 2) 0 ''Cats'' [30, 60] [255, 200, 200] = Inr (w', 0) \<and>
      list_objs w' = list_objs (synthetic 2) \<and>
      cv2_putText test_lib (arrays (synthetic 2) ! 1) ''Cats'' [30, 60] FONT_HERSHEY_SIMPLEX 1
        [255, 200, 200] 2 = Inr (arrays w' ! 1))"
proof -
  note t = edit_operations_and_their_input [OF valid_synthetic [of 2], of 1 1 test_lib "[9, 9]" "''clip.webm''"
      "''still.png''" "''Cats''" "[30, 60]" "[255, 200, 200]"]
  have n: "length (list_objs (synthetic 2)) = 1" by (simp add: synthetic_def)
  have d: "distinct (seq (synthetic 2) 0)" by (simp add: seq_synthetic)
  have one: "1 \<in> set (seq (synthetic 2) 0)" by (simp add: seq_synthetic)
  have v: "cv2_VideoCapture test_lib (os_path_join test_lib ''input'' ''clip.webm'') \<noteq> None"
    by (simp add: test_lib_def)
  have i: "cv2_imread test_lib (os_path_join test_lib ''input'' ''still.png'') \<noteq> None"
    by (simp add: test_lib_def)
  have 1: "\<exists>w'. cut (synthetic 2) 0 1 1 = Inr (w', 1) \<and> kept (synthetic 2) 0 w'"
    by (rule call_at, code_simp) (use t n in simp)
  have 2: "\<exists>w'. to_grayscale test_lib (synthetic 2) 0 = Inr (w', 1) \<and> kept (synthetic 2) 0 w'"
    by (rule call_at, code_simp) (use t n in simp)
  have 3: "\<exists>w'. ensure_3channel test_lib (synthetic 2) 0 = Inr (w', 1) \<and> kept (synthetic 2) 0 w'"
    by (rule call_at, code_simp) (use t n in simp)
  have 4: "\<exists>w'. blur_frames test_lib (synthetic 2) 0 [9, 9] = Inr (w', 1) \<and> kept (synthetic 2) 0 w'"
    by (rule call_at, code_simp) (use t n in simp)
  have 5: "\<exists>w'. append_video test_lib (synthetic 2) 0 ''clip.webm'' = Inr (w', 1) \<and>
      kept (synthetic 2) 0 w'"
    by (rule call_at, code_simp) (use t n v in simp)
  have 6: "\<exists>w'. append_image test_lib (synthetic 2) 0 ''still.png'' = Inr (w', 1) \<and>
      kept (synthetic 2) 0 w'"
    by (rule call_at, code_simp) (use t n i in simp)
  have "\<not> isl (overlay_text test_lib (synthetic 2) 0 ''Cats'' [30, 60] [255, 200, 200])"
    by code_simp
  then obtain w' l' where
    o: "overlay_text test_lib (synthetic 2) 0 ''Cats'' [30, 60] [255, 200, 200] = Inr (w', l')"
    using not_isl by blast
  with t d one have 7: "\<exists>w'. overlay_text test_lib (synthetic 2) 0 ''Cats'' [30, 60] [255, 200, 200] = Inr (w', 0) \<and>
      list_objs w' = list_objs (synthetic 2) \<and>
      cv2_putText test_lib (arrays (synthetic 2) ! 1) ''Cats'' [30, 60] FONT_HERSHEY_SIMPLEX 1
        [255, 200, 200] 2 = Inr (arrays w' ! 1)"
    by blast
  from valid_synthetic d 1 2 3 4 5 6 7 show ?thesis by (intro conjI)
qed


section \<open>Idempotence of ensure_3channel\<close>

lemma allocates_length: "allocates w w' \<Longrightarrow> length (arrays w) \<le> length (arrays w')"
  by (simp add: allocates_def prefix_length_le)

lemma allocates_nth: "allocates w w' \<Longrightarrow> a < length (arrays w) \<Longrightarrow> arrays w' ! a = arrays w ! a"
  by (simp add: allocates_def prefix_nth)

lemma comprehension_results:
  assumes e: "\<And>w f w' r. e w f = Inr (w', r) \<Longrightarrow> allocates w w'"
    and q: "\<And>w f w' r. e w f = Inr (w', r) \<Longrightarrow> f < length (arrays w) \<Longrightarrow>
              r < length (arrays w') \<and> Q (arrays w' ! r)"
  shows "comprehension e w fs = Inr (w1, rs) \<Longrightarrow> \<forall>a\<in>set fs. a < length (arrays w) \<Longrightarrow>
         \<forall>r\<in>set rs. r < length (arrays w1) \<and> Q (arrays w1 ! r)"
proof (induction fs arbitrary: w w1 rs)
  case Nil
  then show ?case by simp
next
  case (Cons f fs)
  from Cons.prems(1) obtain w' r rs' where
    1: "e w f = Inr (w', r)" and 2: "comprehension e w' fs = Inr (w1, rs')" and
    rs: "rs = r # rs'"
    by (auto split: sum.splits prod.splits)
  from e [OF 1] have a1: "allocates w w'" .
  from comprehension_allocates [of e, OF e 2] have a2: "allocates w' w1" .
  from Cons.prems(2) allocates_length [OF a1] have "\<forall>a\<in>set fs. a < length (arrays w')"
    by fastforce
  from Cons.IH [OF 2 this] have rest: "\<forall>r\<in>set rs'. r < length (arrays w1) \<and> Q (arrays w1 ! r)" .
  from Cons.prems(2) have "f < length (arrays w)" by simp
  from q [OF 1 this] have r: "r < length (arrays w')" "Q (arrays w' ! r)" by simp_all
  from r(1) allocates_length [OF a2] have "r < length (arrays w1)" by simp
  moreover from allocates_nth [OF a2 r(1)] r(2) have "Q (arrays w1 ! r)" by simp
  ultimately show ?case using rest rs by simp
qed

lemma comprehension_identity:
  assumes i: "\<And>w f. Q (arrays w ! f) \<Longrightarrow> e w f = Inr (w, f)"
  shows "\<forall>r\<in>set rs. Q (arrays w ! r) \<Longrightarrow> comprehension e w rs = Inr (w, rs)"
  by (induction rs) (simp_all add: i)

lemma ensure_3channel_identity:
  assumes "\<forall>a\<in>set (seq w l). length (shape (arrays w ! a)) \<noteq> 2"
  shows "ensure_3channel lb w l = Inr (fst (new_list w (seq w l)), length (list_objs w))"
proof -
  have "comprehension
          (\<lambda>w f. if length (shape (arrays w ! f)) = 2
                  then returning w (cv2_cvtColor lb (arrays w ! f) COLOR_GRAY2BGR)
                  else Inr (w, f)) w (seq w l) = Inr (w, seq w l)"
    by (rule comprehension_identity [where Q = "\<lambda>f. length (shape f) \<noteq> 2"]) (simp_all add: assms)
  then show ?thesis by (simp add: ensure_3channel_def new_list_def)
qed

lemma ensure_3channel_results:
  assumes lb: "\<forall>f g. length (shape f) = 2 \<longrightarrow> cv2_cvtColor lb f COLOR_GRAY2BGR = Inr g \<longrightarrow>
                 length (shape g) \<noteq> 2"
    and v: "valid w l"
    and r: "ensure_3channel lb w l = Inr (w1, l1)"
  shows "\<forall>a\<in>set (seq w1 l1). length (shape (arrays w1 ! a)) \<noteq> 2"
proof -
  let ?e = "\<lambda>w f. if length (shape (arrays w ! f)) = 2
                  then returning w (cv2_cvtColor lb (arrays w ! f) COLOR_GRAY2BGR)
                  else Inr (w, f)"
  from r obtain wc rs where c: "comprehension ?e w (seq w l) = Inr (wc, rs)"
    and n: "new_list wc rs = (w1, l1)"
    by (auto simp add: ensure_3channel_def split: sum.splits prod.splits)
  have e: "\<And>w f w' r. ?e w f = Inr (w', r) \<Longrightarrow> allocates w w'"
    by (auto simp add: allocates_refl returning_allocates split: if_splits)
  have q: "\<And>w f w' r. ?e w f = Inr (w', r) \<Longrightarrow> f < length (arrays w) \<Longrightarrow>
              r < length (arrays w') \<and> length (shape (arrays w' ! r)) \<noteq> 2"
    using lb by (auto simp add: returning_def new_array_def split: if_splits sum.splits)
  from v have "\<forall>a\<in>set (seq w l). a < length (arrays w)" by (simp add: valid_def)
  from comprehension_results [of ?e "\<lambda>f. length (shape f) \<noteq> 2", OF e q c this]
  have "\<forall>r\<in>set rs. length (shape (arrays wc ! r)) \<noteq> 2" by simp
  moreover from n have "seq w1 l1 = rs" "arrays w1 = arrays wc"
    by (auto simp add: new_list_def seq_def)
  ultimately show ?thesis by simp
qed

text \<open>
  C7: on a list whose frames are all not two-dimensional, \<open>ensure_3channel\<close> returns a list
  of the same references, hence the same frames. Provided the conversion \<open>COLOR_GRAY2BGR\<close>
  of OpenCV yields an array that is not two-dimensional, what \<open>ensure_3channel\<close> returns is
  such a list, so that a second application returns the same frames as the first.
\<close>

theorem ensure_3channel_idempotent:
  "((\<forall>a\<in>set (seq w l). length (shape (arrays w ! a)) \<noteq> 2) \<longrightarrow>
      returned (ensure_3channel lb w l) = Inr (seq w l) \<and>
      returned_frames (ensure_3channel lb w l) = Inr (frames_of w l)) \<and>
   ((\<forall>f g. length (shape f) = 2 \<longrightarrow> cv2_cvtColor lb f COLOR_GRAY2BGR = Inr g \<longrightarrow>
             length (shape g) \<noteq> 2) \<and>
    valid w l \<and> ensure_3channel lb w l = Inr (w1, l1) \<longrightarrow>
      returned (ensure_3channel lb w1 l1) = Inr (seq w1 l1) \<and>
      returned_frames (ensure_3channel lb w1 l1) = Inr (frames_of w1 l1))"
proof -
  have i: "returned (ensure_3channel lb w l) = Inr (seq w l) \<and>
           returned_frames (ensure_3channel lb w l) = Inr (frames_of w l)"
    if "\<forall>a\<in>set (seq w l). length (shape (arrays w ! a)) \<noteq> 2" for w l
    by (simp add: ensure_3channel_identity [OF that] returned_def returned_frames_def
        frames_of_def new_list_def seq_def)
  show ?thesis
  proof (intro conjI impI)
    assume "\<forall>a\<in>set (seq w l). length (shape (arrays w ! a)) \<noteq> 2"
    from i [OF this] show "returned (ensure_3channel lb w l) = Inr (seq w l)"
      "returned_frames (ensure_3channel lb w l) = Inr (frames_of w l)" by simp_all
  next
    assume a: "(\<forall>f g. length (shape f) = 2 \<longrightarrow> cv2_cvtColor lb f COLOR_GRAY2BGR = Inr g \<longrightarrow>
             length (shape g) \<noteq> 2) \<and>
       valid w l \<and> ensure_3channel lb w l = Inr (w1, l1)"
    then have "\<forall>a\<in>set (seq w1 l1). length (shape (arrays w1 ! a)) \<noteq> 2"
      using ensure_3channel_results [of lb w l w1 l1] by blast
    from i [OF this] show "returned (ensure_3channel lb w1 l1) = Inr (seq w1 l1)"
      "returned_frames (ensure_3channel lb w1 l1) = Inr (frames_of w1 l1)" by simp_all
  qed
qed

theorem ensure_3channel_idempotent_witness:
  "valid gray_and_colour 0 \<and>
   ensure_3channel test_lib gray_and_colour 0 =
     Inr (\<lparr>arrays = [\<lparr>shape = [1, 1], pixels = [5]\<rparr>, tagged 1,
                      \<lparr>shape = [1, 1, 3], pixels = [5, 5, 5]\<rparr>],
           list_objs = [[0, 1], [2, 1]], stdout = []\<rparr>, 1) \<and>
   returned (ensure_3channel test_lib
      \<lparr>arrays = [\<lparr>shape = [1, 1], pixels = [5]\<rparr>, tagged 1,
                 \<lparr>shape = [1, 1, 3], pixels = [5, 5, 5]\<rparr>],
       list_objs = [[0, 1], [2, 1]], stdout = []\<rparr> 1) = Inr [2, 1] \<and>
   returned_frames (ensure_3channel test_lib
      \<lparr>arrays = [\<lparr>shape = [1, 1], pixels = [5]\<rparr>, tagged 1,
                 \<lparr>shape = [1, 1, 3], pixels = [5, 5, 5]\<rparr>],
       list_objs = [[0, 1], [2, 1]], stdout = []\<rparr> 1) =
     Inr [\<lparr>shape = [1, 1, 3], pixels = [5, 5, 5]\<rparr>, tagged 1] \<and>
   returned (ensure_3channel test_lib (synthetic 2) 0) = Inr [0, 1]"
proof -
  let ?w1 = "\<lparr>arrays = [\<lparr>shape = [1, 1], pixels = [5]\<rparr>, tagged 1,
                       \<lparr>shape = [1, 1, 3], pixels = [5, 5, 5]\<rparr>],
             list_objs = [[0, 1], [2, 1]], stdout = []\<rparr>"
  have lb: "\<forall>f g. length (shape f) = 2 \<longrightarrow> cv2_cvtColor test_lib f COLOR_GRAY2BGR = Inr g \<longrightarrow>
                 length (shape g) \<noteq> 2"
    by (auto simp add: test_lib_def)
  have v: "valid gray_and_colour 0"
    by (simp add: valid_def gray_and_colour_def seq_def)
  have r: "ensure_3channel test_lib gray_and_colour 0 = Inr (?w1, 1)"
    by code_simp
  have p: "\<forall>a\<in>set (seq (synthetic 2) 0). length (shape (arrays (synthetic 2) ! a)) \<noteq> 2"
    by code_simp
  from ensure_3channel_idempotent [of gray_and_colour 0 test_lib ?w1 1] lb v r
  have "returned (ensure_3channel test_lib ?w1 1) = Inr (seq ?w1 1)"
    "returned_frames (ensure_3channel test_lib ?w1 1) = Inr (frames_of ?w1 1)"
    by blast+
  moreover from ensure_3channel_idempotent [of "synthetic 2" 0 test_lib] p
  have "returned (ensure_3channel test_lib (synthetic 2) 0) = Inr (seq (synthetic 2) 0)"
    by blast
  moreover have "seq (synthetic 2) 0 = [0, 1]" by code_simp
  moreover have "seq ?w1 1 = [2, 1]" by (simp add: seq_def)
  moreover have "frames_of ?w1 1 = [\<lparr>shape = [1, 1, 3], pixels = [5, 5, 5]\<rparr>, tagged 1]"
    by (simp add: frames_of_def seq_def)
  ultimately show ?thesis using v r by simp
qed

end
